theory Spec2Isabelle
  imports Main "HOL-Library.Word" "HOL-Library.List_Lexorder" "HOL-Library.Multiset"
begin

unbundle bit_operations_syntax

section \<open>Python values used by the client\<close>

text \<open>
  A Python \<open>str\<close> is a sequence of Unicode code points, a \<open>bytes\<close> object a sequence
  of octets. Comparison of two \<open>str\<close> values is lexicographic on the code points, which
  is the order \<open>HOL-Library.List_Lexorder\<close> puts on \<open>nat list\<close>.
\<close>

type_synonym ustr = "nat list"
type_synonym byte = "8 word"
type_synonym bytes = "byte list"

text \<open>An ASCII literal of the source, as a \<open>str\<close>.\<close>

definition str :: "string \<Rightarrow> ustr" where
  "str s = map of_char s"

text \<open>An ASCII literal of the source, as a \<open>bytes\<close> object.\<close>

definition lit_bytes :: "string \<Rightarrow> bytes" where
  "lit_bytes s = map of_char s"

text \<open>The exceptions the modelled code can raise.\<close>

datatype error =
    UnicodeEncodeError
  | UnicodeDecodeError
  | ValueError
  | AttributeError
  | RequestException
  | ParseError

definition and_then :: "error + 'a \<Rightarrow> ('a \<Rightarrow> error + 'b) \<Rightarrow> error + 'b" where
  "and_then m f = (case m of Inl e \<Rightarrow> Inl e | Inr x \<Rightarrow> f x)"

text \<open>\<open>sep.join(parts)\<close>\<close>

fun join :: "ustr \<Rightarrow> ustr list \<Rightarrow> ustr" where
  "join sep [] = []"
| "join sep [x] = x"
| "join sep (x # y # ys) = x @ sep @ join sep (y # ys)"

subsection \<open>\<open>str.encode("utf-8")\<close> with \<open>errors="strict"\<close>\<close>

definition is_surrogate :: "nat \<Rightarrow> bool" where
  "is_surrogate c \<longleftrightarrow> 0xD800 \<le> c \<and> c \<le> 0xDFFF"

text \<open>
  A code point is below \<open>0x110000\<close>; a lone surrogate is a legal element of a Python
  \<open>str\<close> but has no UTF-8 form, and the strict encoder raises on it. Numbers from
  \<open>0x110000\<close> on are no code points; the model rejects them the same way.
\<close>

definition encodable :: "nat \<Rightarrow> bool" where
  "encodable c \<longleftrightarrow> c < 0x110000 \<and> \<not> is_surrogate c"

definition utf8_char :: "nat \<Rightarrow> nat list" where
  "utf8_char c =
     (if c < 0x80 then [c]
      else if c < 0x800 then [0xC0 + c div 64, 0x80 + c mod 64]
      else if c < 0x10000 then
        [0xE0 + c div 4096, 0x80 + c div 64 mod 64, 0x80 + c mod 64]
      else
        [0xF0 + c div 262144, 0x80 + c div 4096 mod 64, 0x80 + c div 64 mod 64,
         0x80 + c mod 64])"

fun encode_utf8 :: "ustr \<Rightarrow> error + bytes" where
  "encode_utf8 [] = Inr []"
| "encode_utf8 (c # cs) =
     (if \<not> encodable c then Inl UnicodeEncodeError
      else and_then (encode_utf8 cs) (\<lambda>bs. Inr (map of_nat (utf8_char c) @ bs)))"

section \<open>HMAC signing helpers\<close>

subsection \<open>\<open>urllib.parse.quote\<close>\<close>

definition ALWAYS_SAFE :: "nat list" where
  "ALWAYS_SAFE = str (''ABCDEFGHIJKLMNOPQRSTUVWXYZ'' @ ''abcdefghijklmnopqrstuvwxyz''
                      @ ''0123456789'' @ ''_.-~'')"

definition hex_digit :: "nat \<Rightarrow> nat" where
  "hex_digit d = (if d < 10 then 48 + d else 55 + d)"

text \<open>\<open>chr(b) if b in self.safe else '%{:02X}'.format(b)\<close>\<close>

definition quoter :: "nat list \<Rightarrow> byte \<Rightarrow> ustr" where
  "quoter safe b =
     (if unat b \<in> set (ALWAYS_SAFE @ safe) then [unat b]
      else [37, hex_digit (unat b div 16), hex_digit (unat b mod 16)])"

text \<open>
  The \<open>safe\<close> argument loses its non-ASCII characters; the early return for an input
  made of safe bytes only gives what the quoter gives on it.
\<close>

definition quote_from_bytes :: "bytes \<Rightarrow> ustr \<Rightarrow> ustr" where
  "quote_from_bytes bs safe =
     (if bs = [] then []
      else concat (map (quoter (filter (\<lambda>c. c < 128) safe)) bs))"

definition quote :: "ustr \<Rightarrow> ustr \<Rightarrow> error + ustr" where
  "quote string safe =
     (if string = [] then Inr string
      else and_then (encode_utf8 string) (\<lambda>bs. Inr (quote_from_bytes bs safe)))"

subsection \<open>\<open>enc\<close> and \<open>canonical_query\<close>\<close>

definition enc :: "ustr \<Rightarrow> error + ustr" where
  "enc v = quote v (str ''-_.~'')"

text \<open>
  A \<open>Dict[str, str]\<close> is the list of its items in insertion order, the keys distinct.
  \<open>sorted\<close> is stable, as \<open>sort_key\<close> is. The generator handed to \<open>join\<close> encodes
  the key of an item, then its value, item after item.
\<close>

type_synonym params = "(ustr \<times> ustr) list"

fun enc_items :: "params \<Rightarrow> error + ustr list" where
  "enc_items [] = Inr []"
| "enc_items ((k, v) # kvs) =
     and_then (enc k) (\<lambda>ek.
     and_then (enc v) (\<lambda>ev.
     and_then (enc_items kvs) (\<lambda>rest.
     Inr ((ek @ str ''='' @ ev) # rest))))"

definition canonical_query :: "params \<Rightarrow> error + ustr" where
  "canonical_query ps =
     (let items = sort_key fst ps
      in and_then (enc_items items) (\<lambda>parts. Inr (join (str ''&'') parts)))"

section \<open>\<open>urllib.parse.urlparse\<close> (CPython 3.11)\<close>

text \<open>
  Two checks of \<open>urlsplit\<close> consult library data that is not part of the client:
  \<open>_check_bracketed_host\<close> (the \<open>ipaddress\<close> module and a regular expression) and
  \<open>unicodedata.normalize('NFKC', _)\<close>. They are parameters of the model.
  \<open>check_bracketed_host L h\<close> holds when \<open>_check_bracketed_host(h)\<close> returns without
  raising.
\<close>

record lib =
  check_bracketed_host :: "ustr \<Rightarrow> bool"
  normalize_NFKC :: "ustr \<Rightarrow> ustr"

record parse_result =
  scheme :: ustr
  netloc :: ustr
  path :: ustr
  params :: ustr
  query :: ustr
  fragment :: ustr

text \<open>\<open>s.find(c, start)\<close>, with \<open>None\<close> for \<open>-1\<close>; \<open>s[a:b]\<close> for \<open>a, b \<le> len(s)\<close>.\<close>

definition find :: "nat \<Rightarrow> ustr \<Rightarrow> nat \<Rightarrow> nat option" where
  "find c s start =
     (if c \<in> set (drop start s)
      then Some (start + length (takeWhile (\<lambda>x. x \<noteq> c) (drop start s)))
      else None)"

definition rfind :: "nat \<Rightarrow> ustr \<Rightarrow> nat option" where
  "rfind c s =
     (if c \<in> set s
      then Some (length s - Suc (length (takeWhile (\<lambda>x. x \<noteq> c) (rev s))))
      else None)"

definition slice :: "ustr \<Rightarrow> nat \<Rightarrow> nat \<Rightarrow> ustr" where
  "slice s a b = take (b - a) (drop a s)"

text \<open>\<open>s.split(c, 1)\<close> for a \<open>c\<close> that occurs in \<open>s\<close>.\<close>

definition split1 :: "nat \<Rightarrow> ustr \<Rightarrow> ustr \<times> ustr" where
  "split1 c s = (takeWhile (\<lambda>x. x \<noteq> c) s, drop 1 (dropWhile (\<lambda>x. x \<noteq> c) s))"

definition is_ascii :: "ustr \<Rightarrow> bool" where
  "is_ascii s \<longleftrightarrow> (\<forall>c \<in> set s. c < 128)"

definition ascii_alpha :: "nat \<Rightarrow> bool" where
  "ascii_alpha c \<longleftrightarrow> (65 \<le> c \<and> c \<le> 90) \<or> (97 \<le> c \<and> c \<le> 122)"

definition ascii_lower :: "nat \<Rightarrow> nat" where
  "ascii_lower c = (if 65 \<le> c \<and> c \<le> 90 then c + 32 else c)"

definition scheme_chars :: ustr where
  "scheme_chars = str (''abcdefghijklmnopqrstuvwxyz'' @ ''ABCDEFGHIJKLMNOPQRSTUVWXYZ''
                       @ ''0123456789'' @ ''+-.'')"

definition uses_params :: "ustr list" where
  "uses_params = map str ['''', ''ftp'', ''hdl'', ''prospero'', ''http'', ''imap'',
     ''https'', ''shttp'', ''rtsp'', ''rtsps'', ''rtspu'', ''sip'', ''sips'', ''mms'',
     ''sftp'', ''tel'']"

definition splitparams :: "ustr \<Rightarrow> ustr \<times> ustr" where
  "splitparams url =
     (case rfind 47 url of
        Some j \<Rightarrow>
          (case find 59 url j of
             None \<Rightarrow> (url, [])
           | Some i \<Rightarrow> (take i url, drop (Suc i) url))
      | None \<Rightarrow>
          (case find 59 url 0 of
             None \<Rightarrow> (butlast url, url)
           | Some i \<Rightarrow> (take i url, drop (Suc i) url)))"

definition splitnetloc :: "ustr \<Rightarrow> nat \<Rightarrow> ustr \<times> ustr" where
  "splitnetloc url start =
     (let delim = fold (\<lambda>c delim. case find c url start of
                                     None \<Rightarrow> delim
                                   | Some wdelim \<Rightarrow> min delim wdelim)
                       (str ''/?#'') (length url)
      in (slice url start delim, drop delim url))"

definition checknetloc :: "lib \<Rightarrow> ustr \<Rightarrow> error + unit" where
  "checknetloc L nl =
     (if nl = [] \<or> is_ascii nl then Inr ()
      else
        let n = filter (\<lambda>c. c \<notin> set (str ''@:#?'')) nl;
            netloc2 = normalize_NFKC L n
        in if n = netloc2 then Inr ()
           else if \<exists>c \<in> set (str ''/?#@:''). c \<in> set netloc2 then Inl ValueError
           else Inr ())"

definition urlsplit :: "lib \<Rightarrow> ustr \<Rightarrow> error + (ustr \<times> ustr \<times> ustr \<times> ustr \<times> ustr)" where
  "urlsplit L url0 =
     (let url1 = dropWhile (\<lambda>c. c \<le> 0x20) url0;
          url2 = filter (\<lambda>c. c \<notin> {9, 13, 10}) url1;
          (scheme, url3) =
            (case find 58 url2 0 of
               Some i \<Rightarrow>
                 if 0 < i \<and> ascii_alpha (hd url2)
                    \<and> (\<forall>c \<in> set (take i url2). c \<in> set scheme_chars)
                 then (map ascii_lower (take i url2), drop (Suc i) url2)
                 else ([], url2)
             | None \<Rightarrow> ([], url2))
      in and_then
           (if take 2 url3 = str ''//'' then
              let (nl, rest) = splitnetloc url3 2
              in if (91 \<in> set nl \<and> 93 \<notin> set nl) \<or> (93 \<in> set nl \<and> 91 \<notin> set nl)
                 then Inl ValueError
                 else if 91 \<in> set nl \<and> 93 \<in> set nl
                         \<and> \<not> check_bracketed_host L
                               (fst (split1 93 (snd (split1 91 nl))))
                 then Inl ValueError
                 else Inr (nl, rest)
            else Inr ([], url3))
           (\<lambda>(nl, url4).
              let (url5, fragment) = (if 35 \<in> set url4 then split1 35 url4 else (url4, []));
                  (url6, query) = (if 63 \<in> set url5 then split1 63 url5 else (url5, []))
              in and_then (checknetloc L nl)
                   (\<lambda>_. Inr (scheme, nl, url6, query, fragment))))"

definition urlparse :: "lib \<Rightarrow> ustr \<Rightarrow> error + parse_result" where
  "urlparse L url =
     and_then (urlsplit L url) (\<lambda>(scheme, nl, url1, query, fragment).
       let (url2, ps) =
             (if scheme \<in> set uses_params \<and> 59 \<in> set url1 then splitparams url1
              else (url1, []))
       in Inr \<lparr>scheme = scheme, netloc = nl, path = url2, params = ps,
                query = query, fragment = fragment\<rparr>)"

section \<open>\<open>hashlib.sha256\<close>, \<open>hmac.new\<close>, \<open>base64.b64encode\<close>, \<open>bytes.decode\<close>\<close>

type_synonym word32 = "32 word"

definition Ch :: "word32 \<Rightarrow> word32 \<Rightarrow> word32 \<Rightarrow> word32" where
  "Ch x y z = (x AND y) XOR (NOT x AND z)"

definition Maj :: "word32 \<Rightarrow> word32 \<Rightarrow> word32 \<Rightarrow> word32" where
  "Maj x y z = (x AND y) XOR (x AND z) XOR (y AND z)"

definition Sigma0 :: "word32 \<Rightarrow> word32" where
  "Sigma0 x = word_rotr 2 x XOR word_rotr 13 x XOR word_rotr 22 x"

definition Sigma1 :: "word32 \<Rightarrow> word32" where
  "Sigma1 x = word_rotr 6 x XOR word_rotr 11 x XOR word_rotr 25 x"

definition sigma0 :: "word32 \<Rightarrow> word32" where
  "sigma0 x = word_rotr 7 x XOR word_rotr 18 x XOR drop_bit 3 x"

definition sigma1 :: "word32 \<Rightarrow> word32" where
  "sigma1 x = word_rotr 17 x XOR word_rotr 19 x XOR drop_bit 10 x"

definition K256 :: "word32 list" where
  "K256 = [
    0x428A2F98, 0x71374491, 0xB5C0FBCF, 0xE9B5DBA5, 0x3956C25B, 0x59F111F1, 0x923F82A4, 0xAB1C5ED5,
    0xD807AA98, 0x12835B01, 0x243185BE, 0x550C7DC3, 0x72BE5D74, 0x80DEB1FE, 0x9BDC06A7, 0xC19BF174,
    0xE49B69C1, 0xEFBE4786, 0x0FC19DC6, 0x240CA1CC, 0x2DE92C6F, 0x4A7484AA, 0x5CB0A9DC, 0x76F988DA,
    0x983E5152, 0xA831C66D, 0xB00327C8, 0xBF597FC7, 0xC6E00BF3, 0xD5A79147, 0x06CA6351, 0x14292967,
    0x27B70A85, 0x2E1B2138, 0x4D2C6DFC, 0x53380D13, 0x650A7354, 0x766A0ABB, 0x81C2C92E, 0x92722C85,
    0xA2BFE8A1, 0xA81A664B, 0xC24B8B70, 0xC76C51A3, 0xD192E819, 0xD6990624, 0xF40E3585, 0x106AA070,
    0x19A4C116, 0x1E376C08, 0x2748774C, 0x34B0BCB5, 0x391C0CB3, 0x4ED8AA4A, 0x5B9CCA4F, 0x682E6FF3,
    0x748F82EE, 0x78A5636F, 0x84C87814, 0x8CC70208, 0x90BEFFFA, 0xA4506CEB, 0xBEF9A3F7, 0xC67178F2]"

definition H256 :: "word32 list" where
  "H256 = [0x6A09E667, 0xBB67AE85, 0x3C6EF372, 0xA54FF53A,
           0x510E527F, 0x9B05688C, 0x1F83D9AB, 0x5BE0CD19]"

text \<open>Big-endian conversions between octets and 32-bit words.\<close>

fun be_words :: "bytes \<Rightarrow> word32 list" where
  "be_words (a # b # c # d # r) =
     (push_bit 24 (ucast a) OR push_bit 16 (ucast b) OR push_bit 8 (ucast c) OR ucast d)
       # be_words r"
| "be_words _ = []"

definition be_bytes :: "word32 \<Rightarrow> bytes" where
  "be_bytes w = [ucast (drop_bit 24 w), ucast (drop_bit 16 w), ucast (drop_bit 8 w), ucast w]"

definition be64 :: "nat \<Rightarrow> bytes" where
  "be64 n = map (\<lambda>i. of_nat (n div 2 ^ (8 * (7 - i)))) [0 ..< 8]"

definition sha_pad :: "bytes \<Rightarrow> bytes" where
  "sha_pad m =
     m @ [0x80] @ replicate ((119 - length m mod 64) mod 64) 0 @ be64 (8 * length m)"

text \<open>The message schedule: \<open>n\<close> further words after the sixteen of the block.\<close>

fun schedule :: "nat \<Rightarrow> word32 list \<Rightarrow> word32 list" where
  "schedule 0 w = w"
| "schedule (Suc n) w =
     (let t = length w
      in schedule n
           (w @ [sigma1 (w ! (t - 2)) + w ! (t - 7) + sigma0 (w ! (t - 15)) + w ! (t - 16)]))"

fun sha_round :: "word32 list \<Rightarrow> word32 \<times> word32 \<Rightarrow> word32 list" where
  "sha_round [a, b, c, d, e, f, g, h] (k, w) =
     (let t1 = h + Sigma1 e + Ch e f g + k + w;
          t2 = Sigma0 a + Maj a b c
      in [t1 + t2, a, b, c, d + t1, e, f, g])"
| "sha_round s _ = s"

definition compress :: "word32 list \<Rightarrow> word32 list \<Rightarrow> word32 list" where
  "compress hs block =
     map2 (+) hs (foldl sha_round hs (zip K256 (schedule 48 block)))"

fun blocks16 :: "word32 list \<Rightarrow> word32 list list" where
  "blocks16 ws = (if length ws < 16 then [] else take 16 ws # blocks16 (drop 16 ws))"

declare blocks16.simps [simp del]

definition sha256 :: "bytes \<Rightarrow> bytes" where
  "sha256 m = concat (map be_bytes (foldl compress H256 (blocks16 (be_words (sha_pad m)))))"

text \<open>
  \<open>hmac.new(key, msg, hashlib.sha256).digest()\<close>: a key longer than the block size of
  64 octets is hashed first, then the key is filled with zero octets to the block size.
\<close>

definition hmac_sha256 :: "bytes \<Rightarrow> bytes \<Rightarrow> bytes" where
  "hmac_sha256 key msg =
     (let k1 = (if 64 < length key then sha256 key else key);
          k2 = k1 @ replicate (64 - length k1) 0
      in sha256 (map (\<lambda>b. b XOR 0x5C) k2 @ sha256 (map (\<lambda>b. b XOR 0x36) k2 @ msg)))"

text \<open>The standard base64 alphabet, with \<open>=\<close> padding.\<close>

definition b64char :: "nat \<Rightarrow> byte" where
  "b64char i =
     of_nat (if i < 26 then 65 + i else if i < 52 then 71 + i else if i < 62 then i - 4
             else if i = 62 then 43 else 47)"

fun b64encode :: "bytes \<Rightarrow> bytes" where
  "b64encode [] = []"
| "b64encode [a] =
     (let n = unat a * 65536
      in [b64char (n div 262144), b64char (n div 4096 mod 64), 61, 61])"
| "b64encode [a, b] =
     (let n = unat a * 65536 + unat b * 256
      in [b64char (n div 262144), b64char (n div 4096 mod 64), b64char (n div 64 mod 64), 61])"
| "b64encode (a # b # c # r) =
     (let n = unat a * 65536 + unat b * 256 + unat c
      in [b64char (n div 262144), b64char (n div 4096 mod 64), b64char (n div 64 mod 64),
          b64char (n mod 64)] @ b64encode r)"

text \<open>
  \<open>bytes.decode()\<close>: strict UTF-8. The decoder refuses a stray or missing continuation
  octet, an overlong form, a surrogate and a value above \<open>0x10FFFF\<close>.
\<close>

definition cont :: "nat \<Rightarrow> bool" where
  "cont b \<longleftrightarrow> 0x80 \<le> b \<and> b < 0xC0"

fun decode_nat :: "nat list \<Rightarrow> error + ustr" where
  "decode_nat [] = Inr []"
| "decode_nat (b0 # bs) =
     (if b0 < 0x80 then and_then (decode_nat bs) (\<lambda>r. Inr (b0 # r))
      else if 0xC2 \<le> b0 \<and> b0 < 0xE0 then
        (case bs of
           b1 # r1 \<Rightarrow>
             if cont b1
             then and_then (decode_nat r1)
                    (\<lambda>r. Inr (((b0 - 0xC0) * 64 + (b1 - 0x80)) # r))
             else Inl UnicodeDecodeError
         | _ \<Rightarrow> Inl UnicodeDecodeError)
      else if 0xE0 \<le> b0 \<and> b0 < 0xF0 then
        (case bs of
           b1 # b2 # r2 \<Rightarrow>
             (let c = (b0 - 0xE0) * 4096 + (b1 - 0x80) * 64 + (b2 - 0x80)
              in if cont b1 \<and> cont b2 \<and> 0x800 \<le> c \<and> \<not> is_surrogate c
                 then and_then (decode_nat r2) (\<lambda>r. Inr (c # r))
                 else Inl UnicodeDecodeError)
         | _ \<Rightarrow> Inl UnicodeDecodeError)
      else if 0xF0 \<le> b0 \<and> b0 < 0xF5 then
        (case bs of
           b1 # b2 # b3 # r3 \<Rightarrow>
             (let c = (b0 - 0xF0) * 262144 + (b1 - 0x80) * 4096 + (b2 - 0x80) * 64
                        + (b3 - 0x80)
              in if cont b1 \<and> cont b2 \<and> cont b3 \<and> 0x10000 \<le> c \<and> c < 0x110000
                 then and_then (decode_nat r3) (\<lambda>r. Inr (c # r))
                 else Inl UnicodeDecodeError)
         | _ \<Rightarrow> Inl UnicodeDecodeError)
      else Inl UnicodeDecodeError)"

definition decode_utf8 :: "bytes \<Rightarrow> error + ustr" where
  "decode_utf8 bs = decode_nat (map unat bs)"

subsection \<open>\<open>sign_get\<close>\<close>

definition sign_get :: "lib \<Rightarrow> ustr \<Rightarrow> params \<Rightarrow> ustr \<Rightarrow> error + (ustr \<times> ustr)" where
  "sign_get L full_url ps secret_key =
     and_then (urlparse L full_url) (\<lambda>parsed.
     let host = netloc parsed;
         path = path parsed
     in and_then (canonical_query ps) (\<lambda>cq.
        let string_to_sign = str ''GET'' @ [10] @ host @ [10] @ path @ [10] @ cq
        in and_then (encode_utf8 secret_key) (\<lambda>key.
           and_then (encode_utf8 string_to_sign) (\<lambda>msg.
           let digest = hmac_sha256 key msg
           in and_then (decode_utf8 (b64encode digest)) (\<lambda>signature_b64.
              and_then (enc signature_b64) (\<lambda>signature_enc.
              let signed_url = str ''https://'' @ host @ path @ str ''?'' @ cq
                                 @ str ''&Signature='' @ signature_enc
              in Inr (string_to_sign, signed_url)))))))"

section \<open>The percent-encoding, in the words of the specification\<close>

text \<open>
  A string is well formed when each element is a code point that has a UTF-8 form;
  \<open>utf8\<close> is that form.
\<close>

definition wf_str :: "ustr \<Rightarrow> bool" where
  "wf_str s \<longleftrightarrow> (\<forall>c \<in> set s. encodable c)"

definition utf8 :: "ustr \<Rightarrow> bytes" where
  "utf8 s = concat (map (\<lambda>c. map of_nat (utf8_char c)) s)"

text \<open>Letters, digits and \<open>- _ . ~\<close>.\<close>

definition unreserved :: "nat \<Rightarrow> bool" where
  "unreserved c \<longleftrightarrow>
     (65 \<le> c \<and> c \<le> 90) \<or> (97 \<le> c \<and> c \<le> 122) \<or> (48 \<le> c \<and> c \<le> 57)
     \<or> c = 45 \<or> c = 95 \<or> c = 46 \<or> c = 126"

definition upper_hex :: "nat \<Rightarrow> nat" where
  "upper_hex d = str ''0123456789ABCDEF'' ! d"

definition percent_byte :: "byte \<Rightarrow> ustr" where
  "percent_byte b =
     (if unreserved (unat b) then [unat b]
      else [37, upper_hex (unat b div 16), upper_hex (unat b mod 16)])"

definition percent_encode :: "ustr \<Rightarrow> ustr" where
  "percent_encode s = concat (map percent_byte (utf8 s))"

section \<open>The canonical query string, in the words of the specification\<close>

definition wf_params :: "params \<Rightarrow> bool" where
  "wf_params ps \<longleftrightarrow> (\<forall>(k, v) \<in> set ps. wf_str k \<and> wf_str v)"

text \<open>\<open>encodedKey=encodedValue\<close>\<close>

definition encoded_pair :: "ustr \<times> ustr \<Rightarrow> ustr" where
  "encoded_pair kv = percent_encode (fst kv) @ str ''='' @ percent_encode (snd kv)"

text \<open>The UTF-8 form as numbers, before they are made octets.\<close>

definition utf8n :: "ustr \<Rightarrow> nat list" where
  "utf8n s = concat (map utf8_char s)"

section \<open>The signer, in the words of the specification\<close>

text \<open>Four lines joined by a newline: the verb, the host, the path, the query string.\<close>

definition string_to_sign :: "ustr \<Rightarrow> ustr \<Rightarrow> ustr \<Rightarrow> ustr" where
  "string_to_sign host pth cq = join [10] [str ''GET'', host, pth, cq]"

text \<open>
  The percent-encoded base64 text of the HMAC-SHA256 of the UTF-8 form of the message
  under the UTF-8 form of the key.
\<close>

definition signature :: "ustr \<Rightarrow> ustr \<Rightarrow> ustr" where
  "signature key msg =
     percent_encode (map unat (b64encode (hmac_sha256 (utf8 key) (utf8 msg))))"

definition signed_url :: "ustr \<Rightarrow> ustr \<Rightarrow> ustr \<Rightarrow> ustr \<Rightarrow> ustr" where
  "signed_url host pth cq sig =
     str ''https://'' @ host @ pth @ str ''?'' @ cq @ str ''&Signature='' @ sig"

text \<open>The canonical query string of a well-formed mapping.\<close>

definition canonical :: "params \<Rightarrow> ustr" where
  "canonical ps = join (str ''&'') (map encoded_pair (sort_key fst ps))"

text \<open>
  A stand-in for the two library functions, for closed examples: it refuses every
  bracketed host and normalises nothing. \<open>urlsplit\<close> consults neither function on an
  ASCII host without brackets.
\<close>

definition ascii_lib :: lib where
  "ascii_lib = \<lparr>check_bracketed_host = (\<lambda>_. False), normalize_NFKC = (\<lambda>s. s)\<rparr>"

section \<open>Reading a canonical query string back\<close>

text \<open>
  The inverse the losslessness of the canonical form speaks of: split the string at
  \<open>&\<close>, split each piece at its first \<open>=\<close>, percent-decode both halves. It is no
  part of the client.
\<close>

text \<open>\<open>s.split(c)\<close>: the parts of \<open>s\<close> between the occurrences of \<open>c\<close>.\<close>

fun split_on :: "nat \<Rightarrow> ustr \<Rightarrow> ustr list" where
  "split_on c [] = [[]]"
| "split_on c (x # xs) =
     (if x = c then [] # split_on c xs
      else case split_on c xs of
             [] \<Rightarrow> [[x]]
           | p # ps \<Rightarrow> (x # p) # ps)"

definition hex_value :: "nat \<Rightarrow> nat option" where
  "hex_value c =
     (if 48 \<le> c \<and> c \<le> 57 then Some (c - 48)
      else if 65 \<le> c \<and> c \<le> 70 then Some (c - 55)
      else if 97 \<le> c \<and> c \<le> 102 then Some (c - 87)
      else None)"

text \<open>
  Percent-decoding to octets: \<open>%XX\<close> is the octet with that hexadecimal value, any
  other ASCII character is itself; a \<open>%\<close> without two hexadecimal digits after it, or
  a character beyond ASCII, is refused.
\<close>

fun percent_decode :: "ustr \<Rightarrow> bytes option" where
  "percent_decode [] = Some []"
| "percent_decode (c # r) =
     (if c = 37 then
        (case r of
           h # l # r' \<Rightarrow>
             (case (hex_value h, hex_value l) of
                (Some a, Some b) \<Rightarrow>
                  map_option (\<lambda>bs. of_nat (16 * a + b) # bs) (percent_decode r')
              | _ \<Rightarrow> None)
         | _ \<Rightarrow> None)
      else if c < 128 then map_option (\<lambda>bs. of_nat c # bs) (percent_decode r)
      else None)"

definition unquote :: "ustr \<Rightarrow> ustr option" where
  "unquote s =
     (case percent_decode s of
        None \<Rightarrow> None
      | Some bs \<Rightarrow> (case decode_utf8 bs of Inl _ \<Rightarrow> None | Inr t \<Rightarrow> Some t))"

definition parse_pair :: "ustr \<Rightarrow> (ustr \<times> ustr) option" where
  "parse_pair piece =
     (let (k, v) = split1 61 piece
      in case (unquote k, unquote v) of
           (Some k', Some v') \<Rightarrow> Some (k', v')
         | _ \<Rightarrow> None)"

definition parse_query :: "ustr \<Rightarrow> params option" where
  "parse_query cq = those (map parse_pair (split_on 38 cq))"

section \<open>Properties of the encoder\<close>

lemma encode_utf8_eq:
  "encode_utf8 s = (if wf_str s then Inr (utf8 s) else Inl UnicodeEncodeError)"
  by (induction s) (auto simp: wf_str_def utf8_def and_then_def)

lemma hex_digit_upper: "d < 16 \<Longrightarrow> hex_digit d = upper_hex d"
proof -
  assume "d < 16"
  then have "d \<in> {0,1,2,3,4,5,6,7,8,9,10,11,12,13,14,15}" by (simp; arith)
  then show ?thesis
    by (auto simp: hex_digit_def upper_hex_def str_def)
qed

lemma safe_set:
  "c \<in> set (ALWAYS_SAFE @ filter (\<lambda>c. c < 128) (str ''-_.~'')) \<longleftrightarrow> unreserved c"
  unfolding ALWAYS_SAFE_def str_def unreserved_def
  by simp presburger

lemma unat_byte_less: "unat (b :: byte) < 256"
  using unsigned_less [of b, where 'a = nat] by simp

lemma unat_byte_div16: "unat (b :: byte) div 16 < 16"
  using unat_byte_less [of b] by simp

lemma quoter_percent_byte: "quoter (filter (\<lambda>c. c < 128) (str ''-_.~'')) b = percent_byte b"
  unfolding quoter_def percent_byte_def safe_set
  by (simp add: hex_digit_upper unat_byte_div16)

lemma quote_from_bytes_eq:
  "quote_from_bytes bs (str ''-_.~'') = concat (map percent_byte bs)"
  unfolding quote_from_bytes_def quoter_percent_byte by simp

lemma utf8_Nil [simp]: "utf8 [] = []"
  by (simp add: utf8_def)

lemma wf_str_Nil [simp]: "wf_str []"
  by (simp add: wf_str_def)

lemma enc_eq:
  "enc s = (if wf_str s then Inr (percent_encode s) else Inl UnicodeEncodeError)"
  by (cases "s = []")
     (simp_all add: enc_def quote_def encode_utf8_eq and_then_def quote_from_bytes_eq
        percent_encode_def)

lemma upper_hex_unreserved: "d < 16 \<Longrightarrow> unreserved (upper_hex d)"
proof -
  assume "d < 16"
  then have "d \<in> {0,1,2,3,4,5,6,7,8,9,10,11,12,13,14,15}" by (simp; arith)
  then show ?thesis
    by (auto simp: unreserved_def upper_hex_def str_def)
qed

lemma percent_byte_alphabet: "c \<in> set (percent_byte b) \<Longrightarrow> unreserved c \<or> c = 37"
  by (auto simp: percent_byte_def upper_hex_unreserved unat_byte_div16 split: if_splits)

lemma percent_encode_alphabet: "c \<in> set (percent_encode s) \<Longrightarrow> unreserved c \<or> c = 37"
  by (auto simp: percent_encode_def dest: percent_byte_alphabet)

lemmas literal_defs = str_def wf_str_def encodable_def is_surrogate_def

lemmas percent_encode_defs =
  percent_encode_def utf8_def utf8_char_def percent_byte_def unreserved_def upper_hex_def

text \<open>
  C6. On every string that has a UTF-8 representation, \<open>enc\<close> returns the
  concatenation, over the octets of that representation, of the octet itself when it is
  a letter, a digit or one of \<open>- _ . ~\<close>, and of \<open>%\<close> with two upper-case
  hexadecimal digits otherwise. A space becomes \<open>%20\<close>, the character \<open>+\<close> never
  occurs in a result, and \<open>a b/c\<close> becomes \<open>a%20b%2Fc\<close>.
\<close>

theorem enc_percent_encoding:
  assumes "wf_str s"
  shows "enc s = Inr (concat (map percent_byte (utf8 s)))
         \<and> 43 \<notin> set (concat (map percent_byte (utf8 s)))
         \<and> enc (str '' '') = Inr (str ''%20'')
         \<and> enc (str ''a b/c'') = Inr (str ''a%20b%2Fc'')"
proof -
  have a: "enc s = Inr (concat (map percent_byte (utf8 s)))"
    using assms by (simp add: enc_eq percent_encode_def)
  have b: "43 \<notin> set (percent_encode s)"
  proof
    assume "43 \<in> set (percent_encode s)"
    then have "unreserved 43 \<or> (43::nat) = 37" by (rule percent_encode_alphabet)
    then show False by (simp add: unreserved_def)
  qed
  have c: "enc (str '' '') = Inr (str ''%20'')"
    by (simp add: enc_eq literal_defs percent_encode_defs)
  have d: "enc (str ''a b/c'') = Inr (str ''a%20b%2Fc'')"
    by (simp add: enc_eq literal_defs percent_encode_defs)
  from a b c d show ?thesis by (simp add: percent_encode_def)
qed

theorem enc_percent_encoding_witness:
  "wf_str [0x20AC, 0x2B] \<and> enc [0x20AC, 0x2B] = Inr (str ''%E2%82%AC%2B'')"
proof -
  have w: "wf_str [0x20AC, 0x2B]"
    by (simp add: literal_defs)
  from enc_percent_encoding [OF w] show ?thesis
    using w by (simp add: literal_defs percent_encode_defs)
qed

section \<open>Properties of \<open>canonical_query\<close>\<close>

lemma enc_items_eq:
  "enc_items items =
     (if wf_params items then Inr (map encoded_pair items) else Inl UnicodeEncodeError)"
  by (induction items rule: enc_items.induct)
     (auto simp: wf_params_def enc_eq and_then_def encoded_pair_def)

lemma wf_params_sort_key [simp]: "wf_params (sort_key f ps) = wf_params ps"
  by (simp add: wf_params_def)

lemma canonical_query_eq:
  "canonical_query ps =
     (if wf_params ps then Inr (join (str ''&'') (map encoded_pair (sort_key fst ps)))
      else Inl UnicodeEncodeError)"
  by (simp add: canonical_query_def enc_items_eq and_then_def)

lemma join_last_aux:
  "ps \<noteq> [] \<Longrightarrow> last ps \<noteq> [] \<Longrightarrow>
     join sep ps \<noteq> [] \<and> last (join sep ps) = last (last ps)"
  by (induction sep ps rule: join.induct) auto

lemma last_join:
  "ps \<noteq> [] \<Longrightarrow> last ps \<noteq> [] \<Longrightarrow> last (join sep ps) = last (last ps)"
  by (simp add: join_last_aux)

lemma join_eq_Nil: "join sep ps = [] \<Longrightarrow> \<forall>p \<in> set ps. p \<noteq> [] \<Longrightarrow> ps = []"
  by (induction sep ps rule: join.induct) auto

lemma encoded_pair_not_Nil [simp]: "encoded_pair kv \<noteq> []"
  by (simp add: encoded_pair_def str_def)

lemma last_encoded_pair: "last (encoded_pair kv) \<noteq> 38"
proof (cases "percent_encode (snd kv) = []")
  case True
  then show ?thesis by (simp add: encoded_pair_def str_def)
next
  case False
  then have "last (encoded_pair kv) \<in> set (percent_encode (snd kv))"
    by (simp add: encoded_pair_def)
  then have "unreserved (last (encoded_pair kv)) \<or> last (encoded_pair kv) = 37"
    by (rule percent_encode_alphabet)
  then show ?thesis by (auto simp: unreserved_def)
qed

lemma no_trailing_ampersand:
  assumes "cq = join (str ''&'') (map encoded_pair qs)" "cq \<noteq> []"
  shows "last cq \<noteq> 38"
proof -
  from assms have ne: "qs \<noteq> []" by auto
  then have "last cq = last (encoded_pair (last qs))"
    using assms(1) by (simp add: last_join last_map)
  then show ?thesis by (simp add: last_encoded_pair)
qed

section \<open>UTF-8 keeps the order of strings\<close>

lemma digit_less:
  fixes c d b :: nat
  assumes "c < d"
  shows "c div b < d div b \<or> c div b = d div b \<and> c mod b < d mod b"
proof (cases "c div b = d div b")
  case True
  from assms have "b * (c div b) + c mod b < b * (d div b) + d mod b"
    by (simp only: mult_div_mod_eq)
  with True have "b * (d div b) + c mod b < b * (d div b) + d mod b"
    by (simp only:)
  then have "c mod b < d mod b" by (simp only: nat_add_left_cancel_less)
  with True show ?thesis by blast
next
  case False
  moreover have "c div b \<le> d div b"
    using assms by (simp add: div_le_mono)
  ultimately show ?thesis by simp
qed

lemma lt3: 
  fixes c d :: nat
  assumes "c < d" 
  shows "c div 4096 < d div 4096 \<or> c div 4096 = d div 4096 \<and>
   (c div 64 mod 64 < d div 64 mod 64 \<or> c div 64 mod 64 = d div 64 mod 64 \<and> c mod 64 < d mod 64)"
proof -
  have e: "c div 4096 = c div 64 div 64" "d div 4096 = d div 64 div 64"
    by (simp_all add: div_mult2_eq [symmetric])
  from digit_less [OF assms, of 64] show ?thesis
  proof
    assume "c div 64 < d div 64"
    from digit_less [OF this, of 64] show ?thesis unfolding e by blast
  next
    assume "c div 64 = d div 64 \<and> c mod 64 < d mod 64"
    then show ?thesis unfolding e by simp
  qed
qed

lemma lt4:
  fixes c d :: nat
  assumes "c < d" 
  shows "c div 262144 < d div 262144 \<or> c div 262144 = d div 262144 \<and>
   (c div 4096 mod 64 < d div 4096 mod 64 \<or> c div 4096 mod 64 = d div 4096 mod 64 \<and>
   (c div 64 mod 64 < d div 64 mod 64 \<or> c div 64 mod 64 = d div 64 mod 64 \<and> c mod 64 < d mod 64))"
proof -
  have e: "c div 262144 = c div 64 div 4096" "d div 262144 = d div 64 div 4096"
     "c div 4096 = c div 64 div 64" "d div 4096 = d div 64 div 64"
    by (simp_all add: div_mult2_eq [symmetric])
  from digit_less [OF assms, of 64] show ?thesis
  proof
    assume "c div 64 < d div 64"
    from lt3 [OF this] show ?thesis unfolding e by blast
  next
    assume "c div 64 = d div 64 \<and> c mod 64 < d mod 64"
    then show ?thesis unfolding e by simp
  qed
qed

lemma lead2: "(c::nat) < 0x800 \<Longrightarrow> c div 64 < 32" by simp
lemma lead3: "(c::nat) < 0x10000 \<Longrightarrow> c div 4096 < 16" by simp

lemma utf8_char_less:
  assumes "encodable d" "c < d"
  shows "utf8_char c @ x < utf8_char d @ y"
proof -
  consider "d < 0x80" | "c < 0x80" "0x80 \<le> d"
    | "0x80 \<le> c" "d < 0x800" | "0x80 \<le> c" "c < 0x800" "0x800 \<le> d"
    | "0x800 \<le> c" "d < 0x10000" | "0x800 \<le> c" "c < 0x10000" "0x10000 \<le> d"
    | "0x10000 \<le> c"
    using assms(2) by linarith
  then show ?thesis
  proof cases
    case 1
    then show ?thesis using assms(2) by (simp add: utf8_char_def)
  next
    case 2
    then show ?thesis by (simp add: utf8_char_def)
  next
    case 3
    then show ?thesis
      using assms(2) digit_less [OF assms(2), of 64] by (simp add: utf8_char_def) blast
  next
    case 4
    then show ?thesis using lead2 [of c] by (simp add: utf8_char_def)
  next
    case 5
    then show ?thesis
      using assms(2) lt3 [OF assms(2)] by (simp add: utf8_char_def) blast
  next
    case 6
    then show ?thesis using lead3 [of c] by (simp add: utf8_char_def)
  next
    case 7
    then show ?thesis
      using assms(2) lt4 [OF assms(2)] by (simp add: utf8_char_def) blast
  qed
qed


lemma append_less_append_left: "(xs @ ys < xs @ zs) = (ys < (zs :: 'a :: order list))"
  by (induction xs) simp_all

lemma utf8n_mono:
  "wf_str t \<Longrightarrow> s < t \<Longrightarrow> utf8n s < utf8n t"
proof (induction s arbitrary: t)
  case Nil
  then obtain d t' where "t = d # t'" by (cases t) auto
  then show ?case by (auto simp: utf8n_def utf8_char_def)
next
  case (Cons c s)
  then obtain d t' where t: "t = d # t'" by (cases t) auto
  with Cons.prems have "c < d \<or> c = d \<and> s < t'" by simp
  then show ?case
  proof
    assume "c < d"
    with Cons.prems t show ?thesis
      by (simp add: utf8n_def utf8_char_less wf_str_def)
  next
    assume "c = d \<and> s < t'"
    with Cons.IH [of t'] Cons.prems t show ?thesis
      by (simp add: utf8n_def append_less_append_left wf_str_def)
  qed
qed

lemma utf8_char_bound: "encodable c \<Longrightarrow> b \<in> set (utf8_char c) \<Longrightarrow> b < 256"
  unfolding utf8_char_def encodable_def
  by (auto split: if_splits)

lemma unat_of_nat_byte: "n < 256 \<Longrightarrow> unat (of_nat n :: byte) = n"
  by (simp add: unat_of_nat)

lemma unat_utf8: "wf_str s \<Longrightarrow> map unat (utf8 s) = utf8n s"
proof (induction s)
  case Nil
  then show ?case by (simp add: utf8n_def)
next
  case (Cons c s)
  then have "encodable c" "wf_str s" by (simp_all add: wf_str_def)
  then have "map (\<lambda>n. unat (of_nat n :: byte)) (utf8_char c) = utf8_char c"
    by (simp add: map_idI utf8_char_bound unat_of_nat_byte)
  with Cons \<open>wf_str s\<close> show ?case
    by (simp add: utf8_def utf8n_def comp_def)
qed

lemma map_unat_less: "(map unat xs < map unat ys) = (xs < (ys :: byte list))"
proof (induction xs arbitrary: ys)
  case Nil
  then show ?case by (cases ys) simp_all
next
  case (Cons x xs)
  show ?case
  proof (cases ys)
    case Nil
    then show ?thesis by simp
  next
    case (Cons y ys')
    then show ?thesis
      using Cons.IH [of ys'] by (simp add: word_less_nat_alt word_unat_eq_iff)
  qed
qed

lemma utf8_mono: "wf_str s \<Longrightarrow> wf_str t \<Longrightarrow> s \<le> t \<Longrightarrow> utf8 s \<le> utf8 t"
proof -
  assume w: "wf_str s" "wf_str t" and le: "s \<le> t"
  show ?thesis
  proof (cases "s = t")
    case True
    then show ?thesis by simp
  next
    case False
    with le have "s < t" by simp
    with w have "utf8n s < utf8n t" by (simp add: utf8n_mono)
    with w have "utf8 s < utf8 t" by (simp add: unat_utf8 [symmetric] map_unat_less)
    then show ?thesis by simp
  qed
qed

lemma sorted_utf8_keys:
  assumes "wf_params qs" "sorted (map fst qs)"
  shows "sorted (map (\<lambda>kv. utf8 (fst kv)) qs)"
  using assms
proof (induction qs)
  case Nil
  then show ?case by simp
next
  case (Cons q qs)
  then have "wf_params qs" "sorted (map fst qs)" by (simp_all add: wf_params_def)
  moreover have "utf8 (fst q) \<le> utf8 (fst r)" if "r \<in> set qs" for r
  proof -
    from that Cons.prems have "fst q \<le> fst r" "wf_str (fst q)" "wf_str (fst r)"
      by (auto simp: wf_params_def)
    then show ?thesis by (simp add: utf8_mono)
  qed
  ultimately show ?case using Cons.IH by auto
qed

lemmas canonical_query_defs = wf_params_def encoded_pair_def

text \<open>
  C5. For every parameter mapping whose keys and values have a UTF-8 form,
  \<open>canonical_query\<close> returns the \<open>encodedKey=encodedValue\<close> pairs of the items
  joined with \<open>&\<close>, the items being those of the mapping (each once) in ascending
  order of the key. The keys ascend as sequences of code points and, what is the same,
  as sequences of the octets of their UTF-8 forms, so upper case comes before lower
  case. The result does not end in \<open>&\<close>. The mapping \<open>{"b":"2","a":"1"}\<close> gives
  \<open>a=1&b=2\<close>, whichever item was inserted first.
\<close>

theorem canonical_query_sorted_join:
  assumes "wf_params ps"
  shows "canonical_query ps = Inr (join (str ''&'') (map encoded_pair (sort_key fst ps)))
         \<and> sorted (map fst (sort_key fst ps))
         \<and> sorted (map (\<lambda>kv. utf8 (fst kv)) (sort_key fst ps))
         \<and> mset (sort_key fst ps) = mset ps
         \<and> (join (str ''&'') (map encoded_pair (sort_key fst ps)) \<noteq> []
              \<longrightarrow> last (join (str ''&'') (map encoded_pair (sort_key fst ps))) \<noteq> 38)
         \<and> canonical_query [(str ''b'', str ''2''), (str ''a'', str ''1'')] = Inr (str ''a=1&b=2'')
         \<and> canonical_query [(str ''a'', str ''1''), (str ''b'', str ''2'')] = Inr (str ''a=1&b=2'')
         \<and> canonical_query [(str ''b'', str ''1''), (str ''B'', str ''2'')] = Inr (str ''B=2&b=1'')"
proof -
  have a: "canonical_query ps = Inr (join (str ''&'') (map encoded_pair (sort_key fst ps)))"
    using assms by (simp add: canonical_query_eq)
  have b: "sorted (map fst (sort_key fst ps))" by simp
  have b': "sorted (map (\<lambda>kv. utf8 (fst kv)) (sort_key fst ps))"
    using assms b by (intro sorted_utf8_keys) simp_all
  have c: "mset (sort_key fst ps) = mset ps" by simp
  have d: "join (str ''&'') (map encoded_pair (sort_key fst ps)) \<noteq> []
            \<longrightarrow> last (join (str ''&'') (map encoded_pair (sort_key fst ps))) \<noteq> 38"
    using no_trailing_ampersand by blast
  have e: "canonical_query [(str ''b'', str ''2''), (str ''a'', str ''1'')] = Inr (str ''a=1&b=2'')"
    by (simp add: canonical_query_eq canonical_query_defs literal_defs percent_encode_defs)
  have f: "canonical_query [(str ''a'', str ''1''), (str ''b'', str ''2'')] = Inr (str ''a=1&b=2'')"
    by (simp add: canonical_query_eq canonical_query_defs literal_defs percent_encode_defs)
  have g: "canonical_query [(str ''b'', str ''1''), (str ''B'', str ''2'')] = Inr (str ''B=2&b=1'')"
    by (simp add: canonical_query_eq canonical_query_defs literal_defs percent_encode_defs)
  from a b b' c d e f g show ?thesis by blast
qed

theorem canonical_query_sorted_join_witness:
  "wf_params [(str ''k 2'', str ''x&y''), (str ''k 1'', str ''=''), (str ''K'', [])]
   \<and> canonical_query [(str ''k 2'', str ''x&y''), (str ''k 1'', str ''=''), (str ''K'', [])]
       = Inr (str ''K=&k%201=%3D&k%202=x%26y'')"
proof -
  have w: "wf_params [(str ''k 2'', str ''x&y''), (str ''k 1'', str ''=''), (str ''K'', [])]"
    by (simp add: canonical_query_defs literal_defs)
  from canonical_query_sorted_join [OF w] show ?thesis
    using w by (simp add: canonical_query_defs literal_defs percent_encode_defs)
qed

section \<open>Properties of \<open>sign_get\<close>\<close>

lemma b64char_ascii: "i < 64 \<Longrightarrow> unat (b64char i) < 128"
  by (auto simp: b64char_def unat_of_nat)

lemma b64encode_ascii: "b \<in> set (b64encode bs) \<Longrightarrow> unat b < 128"
proof (induction bs arbitrary: b rule: b64encode.induct)
  case 1
  then show ?case by simp
next
  case (2 a)
  have "unat a * 65536 div 262144 < 64" using unat_byte_less [of a] by simp
  with 2 show ?case by (auto simp: Let_def b64char_ascii)
next
  case (3 a c)
  have "(unat a * 65536 + unat c * 256) div 262144 < 64"
    using unat_byte_less [of a] unat_byte_less [of c] by simp
  with 3 show ?case by (auto simp: Let_def b64char_ascii)
next
  case (4 a c d r)
  have "(unat a * 65536 + unat c * 256 + unat d) div 262144 < 64"
    using unat_byte_less [of a] unat_byte_less [of c] unat_byte_less [of d] by simp
  with 4 show ?case by (auto simp: Let_def b64char_ascii)
qed

lemma decode_nat_ascii: "\<forall>c \<in> set xs. c < 128 \<Longrightarrow> decode_nat xs = Inr xs"
  by (induction xs) (simp_all add: and_then_def)

lemma decode_b64encode: "decode_utf8 (b64encode d) = Inr (map unat (b64encode d))"
  by (simp add: decode_utf8_def decode_nat_ascii b64encode_ascii)

lemma ascii_wf_str: "\<forall>c \<in> set s. c < 128 \<Longrightarrow> wf_str s"
  by (auto simp: wf_str_def encodable_def is_surrogate_def)

lemma wf_str_b64encode: "wf_str (map unat (b64encode d))"
  by (rule ascii_wf_str) (auto dest: b64encode_ascii)

lemma wf_str_percent_encode: "wf_str (percent_encode s)"
  by (rule ascii_wf_str) (auto dest!: percent_encode_alphabet simp: unreserved_def)

lemma wf_str_append [simp]: "wf_str (a @ b) \<longleftrightarrow> wf_str a \<and> wf_str b"
  by (auto simp: wf_str_def)

lemma wf_str_str_ascii: "\<forall>c \<in> set s. of_char c < (128::nat) \<Longrightarrow> wf_str (str s)"
  by (rule ascii_wf_str) (auto simp: str_def)

lemma wf_str_join: "wf_str sep \<Longrightarrow> \<forall>p \<in> set ps. wf_str p \<Longrightarrow> wf_str (join sep ps)"
  by (induction sep ps rule: join.induct) auto

lemma wf_str_Cons [simp]: "wf_str (c # s) \<longleftrightarrow> encodable c \<and> wf_str s"
  by (simp add: wf_str_def)

lemma encodable_ascii: "c < 128 \<Longrightarrow> encodable c"
  by (simp add: encodable_def is_surrogate_def)

lemma wf_str_encoded_pair: "wf_str (encoded_pair kv)"
  by (simp add: encoded_pair_def wf_str_percent_encode str_def encodable_ascii)

lemma wf_str_canonical: "wf_str (canonical ps)"
  unfolding canonical_def
  by (rule wf_str_join) (simp_all add: str_def encodable_ascii wf_str_encoded_pair)

lemma string_to_sign_eq:
  "string_to_sign host pth cq = str ''GET'' @ [10] @ host @ [10] @ pth @ [10] @ cq"
  by (simp add: string_to_sign_def)

lemma wf_str_string_to_sign:
  "wf_str (string_to_sign host pth (canonical ps)) \<longleftrightarrow> wf_str host \<and> wf_str pth"
  by (simp add: string_to_sign_eq wf_str_canonical str_def encodable_ascii)

lemma canonical_query_canonical:
  "canonical_query ps = (if wf_params ps then Inr (canonical ps) else Inl UnicodeEncodeError)"
  by (simp add: canonical_query_eq canonical_def)

text \<open>
  The whole of \<open>sign_get\<close>: the error of \<open>urlparse\<close> if it raises, the error of
  the encoder if a string has no UTF-8 form, and the pair of results otherwise.
\<close>

lemma sign_get_eq:
  "sign_get L full_url ps secret_key =
     (case urlparse L full_url of
        Inl e \<Rightarrow> Inl e
      | Inr parsed \<Rightarrow>
          if wf_params ps \<and> wf_str secret_key \<and> wf_str (netloc parsed)
             \<and> wf_str (path parsed)
          then Inr (string_to_sign (netloc parsed) (path parsed) (canonical ps),
                    signed_url (netloc parsed) (path parsed) (canonical ps)
                      (signature secret_key
                         (string_to_sign (netloc parsed) (path parsed) (canonical ps))))
          else Inl UnicodeEncodeError)"
proof (cases "urlparse L full_url")
  case (Inl e)
  then show ?thesis by (simp add: sign_get_def and_then_def)
next
  case (Inr parsed)
  let ?sts = "string_to_sign (netloc parsed) (path parsed) (canonical ps)"
  have unfold: "sign_get L full_url ps secret_key =
     and_then (canonical_query ps) (\<lambda>cq.
       and_then (encode_utf8 secret_key) (\<lambda>key.
       and_then (encode_utf8 (string_to_sign (netloc parsed) (path parsed) cq)) (\<lambda>msg.
       and_then (decode_utf8 (b64encode (hmac_sha256 key msg))) (\<lambda>signature_b64.
       and_then (enc signature_b64) (\<lambda>signature_enc.
       Inr (string_to_sign (netloc parsed) (path parsed) cq,
            signed_url (netloc parsed) (path parsed) cq signature_enc))))))"
    by (simp add: sign_get_def Inr and_then_def Let_def string_to_sign_eq signed_url_def)
  show ?thesis
    unfolding unfold
    by (simp add: Inr and_then_def canonical_query_canonical encode_utf8_eq
          wf_str_string_to_sign decode_b64encode enc_eq wf_str_b64encode signature_def)
qed

lemma utf8_str_ascii: "\<forall>c \<in> set s. of_char c < (128::nat) \<Longrightarrow> utf8 (str s) = lit_bytes s"
  by (induction s) (simp_all add: utf8_def str_def lit_bytes_def utf8_char_def of_nat_of_char)

lemmas urlparse_defs =
  urlparse_def urlsplit_def splitnetloc_def splitparams_def find_def rfind_def slice_def
  split1_def checknetloc_def is_ascii_def ascii_alpha_def ascii_lower_def scheme_chars_def
  uses_params_def and_then_def

lemma urlparse_example:
  "urlparse L (str ''https://example.com/path'') =
     Inr \<lparr>scheme = str ''https'', netloc = str ''example.com'', path = str ''/path'',
          params = [], query = [], fragment = []\<rparr>"
  by (simp add: urlparse_defs str_def)

lemma canonical_example:
  "canonical [(str ''apiKey'', str ''anonymous''),
              (str ''TimeStamp'', str ''2024-01-01T00:00:00Z''),
              (str ''GlobalIdentifier'', str ''id1'')]
   = str ''GlobalIdentifier=id1&TimeStamp=2024-01-01T00%3A00%3A00Z&apiKey=anonymous''"
  by (simp add: canonical_def canonical_query_defs literal_defs percent_encode_defs)

lemma wf_params_example:
  "wf_params [(str ''apiKey'', str ''anonymous''),
              (str ''TimeStamp'', str ''2024-01-01T00:00:00Z''),
              (str ''GlobalIdentifier'', str ''id1'')]"
  by (simp add: wf_params_def str_def encodable_ascii)

lemma string_to_sign_example:
  "string_to_sign (str ''example.com'') (str ''/path'')
     (str ''GlobalIdentifier=id1&TimeStamp=2024-01-01T00%3A00%3A00Z&apiKey=anonymous'')
   = str ''GET\<newline>example.com\<newline>/path\<newline>GlobalIdentifier=id1&TimeStamp=2024-01-01T00%3A00%3A00Z&apiKey=anonymous''"
  by (simp add: string_to_sign_def str_def)

text \<open>
  C1. With the secret key \<open>yoursecretkey\<close>, the URL \<open>https://example.com/path\<close> and
  the parameters \<open>apiKey=anonymous\<close>, \<open>TimeStamp=2024-01-01T00:00:00Z\<close>,
  \<open>GlobalIdentifier=id1\<close>, \<open>sign_get\<close> returns the string-to-sign
  \<open>GET\<close>, \<open>example.com\<close>, \<open>/path\<close> and the canonical query string, joined by
  newlines and with no newline at the end, and the signed URL whose \<open>Signature\<close>
  parameter is the percent-encoded base64 text of the HMAC-SHA256 of the octets of that
  string under the octets of the key.
\<close>

theorem sign_get_example:
  "sign_get L (str ''https://example.com/path'')
     [(str ''apiKey'', str ''anonymous''),
      (str ''TimeStamp'', str ''2024-01-01T00:00:00Z''),
      (str ''GlobalIdentifier'', str ''id1'')]
     (str ''yoursecretkey'')
   = Inr (str ''GET\<newline>example.com\<newline>/path\<newline>GlobalIdentifier=id1&TimeStamp=2024-01-01T00%3A00%3A00Z&apiKey=anonymous'',
          str ''https://example.com/path?GlobalIdentifier=id1&TimeStamp=2024-01-01T00%3A00%3A00Z&apiKey=anonymous&Signature=''
          @ percent_encode (map unat (b64encode
              (hmac_sha256 (lit_bytes ''yoursecretkey'')
                 (lit_bytes ''GET\<newline>example.com\<newline>/path\<newline>GlobalIdentifier=id1&TimeStamp=2024-01-01T00%3A00%3A00Z&apiKey=anonymous'')))))
   \<and> str ''GET\<newline>example.com\<newline>/path\<newline>GlobalIdentifier=id1&TimeStamp=2024-01-01T00%3A00%3A00Z&apiKey=anonymous''
       = join [10] [str ''GET'', str ''example.com'', str ''/path'',
           str ''GlobalIdentifier=id1&TimeStamp=2024-01-01T00%3A00%3A00Z&apiKey=anonymous'']"
proof -
  have k: "utf8 (str ''yoursecretkey'') = lit_bytes ''yoursecretkey''"
    by (rule utf8_str_ascii) simp
  have m: "utf8 (str ''GET\<newline>example.com\<newline>/path\<newline>GlobalIdentifier=id1&TimeStamp=2024-01-01T00%3A00%3A00Z&apiKey=anonymous'')
           = lit_bytes ''GET\<newline>example.com\<newline>/path\<newline>GlobalIdentifier=id1&TimeStamp=2024-01-01T00%3A00%3A00Z&apiKey=anonymous''"
    by (rule utf8_str_ascii) simp
  have w: "wf_str (str ''yoursecretkey'')" "wf_str (str ''example.com'')" "wf_str (str ''/path'')"
    by (simp_all add: str_def encodable_ascii)
  have u: "str ''https://example.com/path?GlobalIdentifier=id1&TimeStamp=2024-01-01T00%3A00%3A00Z&apiKey=anonymous&Signature='' @ x
           = signed_url (str ''example.com'') (str ''/path'')
               (str ''GlobalIdentifier=id1&TimeStamp=2024-01-01T00%3A00%3A00Z&apiKey=anonymous'') x"
    for x
    by (simp add: signed_url_def str_def)
  have a: "sign_get L (str ''https://example.com/path'')
     [(str ''apiKey'', str ''anonymous''),
      (str ''TimeStamp'', str ''2024-01-01T00:00:00Z''),
      (str ''GlobalIdentifier'', str ''id1'')]
     (str ''yoursecretkey'')
   = Inr (str ''GET\<newline>example.com\<newline>/path\<newline>GlobalIdentifier=id1&TimeStamp=2024-01-01T00%3A00%3A00Z&apiKey=anonymous'',
          str ''https://example.com/path?GlobalIdentifier=id1&TimeStamp=2024-01-01T00%3A00%3A00Z&apiKey=anonymous&Signature=''
          @ percent_encode (map unat (b64encode
              (hmac_sha256 (lit_bytes ''yoursecretkey'')
                 (lit_bytes ''GET\<newline>example.com\<newline>/path\<newline>GlobalIdentifier=id1&TimeStamp=2024-01-01T00%3A00%3A00Z&apiKey=anonymous'')))))"
    unfolding sign_get_eq urlparse_example u
    using w
    by (simp add: wf_params_example canonical_example string_to_sign_example signature_def k m)
  have b: "str ''GET\<newline>example.com\<newline>/path\<newline>GlobalIdentifier=id1&TimeStamp=2024-01-01T00%3A00%3A00Z&apiKey=anonymous''
       = join [10] [str ''GET'', str ''example.com'', str ''/path'',
           str ''GlobalIdentifier=id1&TimeStamp=2024-01-01T00%3A00%3A00Z&apiKey=anonymous'']"
    by (simp add: str_def)
  from a b show ?thesis by (rule conjI)
qed

theorem sign_get_example_witness:
  "fst (projr (sign_get ascii_lib (str ''https://example.com/path'')
     [(str ''apiKey'', str ''anonymous''),
      (str ''TimeStamp'', str ''2024-01-01T00:00:00Z''),
      (str ''GlobalIdentifier'', str ''id1'')]
     (str ''yoursecretkey'')))
   = str ''GET'' @ [10] @ str ''example.com'' @ [10] @ str ''/path'' @ [10]
     @ str ''GlobalIdentifier=id1&TimeStamp=2024-01-01T00%3A00%3A00Z&apiKey=anonymous''"
  using sign_get_example [of ascii_lib] by (simp add: str_def)

section \<open>Determinism\<close>

lemma sort_key_fst_unique:
  assumes "distinct (map fst ps)" "distinct (map fst qs)" "set ps = set qs"
  shows "sort_key fst ps = sort_key fst qs"
proof (rule map_sorted_distinct_set_unique [where f = fst])
  from assms(1) have "inj_on fst (set ps)" by (simp add: distinct_map)
  with assms(3) show "inj_on fst (set (sort_key fst ps) \<union> set (sort_key fst qs))" by simp
  show "sorted (map fst (sort_key fst ps))" "sorted (map fst (sort_key fst qs))" by simp_all
  show "distinct (map fst (sort_key fst ps))"
    using assms(1) by (simp add: distinct_map)
  show "distinct (map fst (sort_key fst qs))"
    using assms(2) by (simp add: distinct_map)
  show "set (sort_key fst ps) = set (sort_key fst qs)" using assms(3) by simp
qed

lemma dict_items_eq:
  assumes "distinct (map fst ps)" "distinct (map fst qs)" "map_of ps = map_of qs"
  shows "set ps = set qs"
  using assms by (simp add: map_of_inject_set)

lemma canonical_query_dict:
  assumes "distinct (map fst ps)" "distinct (map fst qs)" "map_of ps = map_of qs"
  shows "canonical_query ps = canonical_query qs"
proof -
  have s: "set ps = set qs" using assms by (rule dict_items_eq)
  then have "wf_params ps = wf_params qs" by (simp add: wf_params_def)
  moreover have "canonical ps = canonical qs"
    using sort_key_fst_unique [OF assms(1,2) s] by (simp add: canonical_def)
  ultimately show ?thesis by (simp add: canonical_query_canonical)
qed



end
